theory Spec2Isabelle
  imports Complex_Main
begin

section \<open>Strings, characters and numbers of the host language\<close>

text \<open>
  The component \<^verbatim>\<open>src/app/semantic-search/SearchUI.js\<close> works on JavaScript strings.
  A string is modelled as a \<^typ>\<open>string\<close>; a \<^typ>\<open>char\<close> stands for the code unit
  of the same number, so the model covers the strings whose code units lie in
  \<open>0..255\<close> (ASCII and the Latin-1 supplement). The built-in operations below are
  written out for that range from the ECMAScript definition.
\<close>

text \<open>White space and line terminators, as \<^verbatim>\<open>String.prototype.trim\<close> and the class
  \<^verbatim>\<open>\s\<close> have them: TAB, LF, VT, FF, CR, SP and NBSP.\<close>

definition isWhiteSpace :: "char \<Rightarrow> bool" where
  "isWhiteSpace c = (let n = (of_char c :: nat) in (9 \<le> n \<and> n \<le> 13) \<or> n = 32 \<or> n = 160)"

text \<open>The class \<^verbatim>\<open>\w\<close>: \<^verbatim>\<open>[A-Za-z0-9_]\<close>.\<close>

definition isWordChar :: "char \<Rightarrow> bool" where
  "isWordChar c = (let n = (of_char c :: nat) in
     (48 \<le> n \<and> n \<le> 57) \<or> (65 \<le> n \<and> n \<le> 90) \<or> n = 95 \<or> (97 \<le> n \<and> n \<le> 122))"

text \<open>\<^verbatim>\<open>String.prototype.toLowerCase\<close>, code unit by code unit: \<open>A..Z\<close> and the
  capital letters \<open>0xC0..0xDE\<close> of Latin-1 (the multiplication sign \<open>0xD7\<close> is no letter)
  move up by 32.\<close>

definition toLowerCase_char :: "char \<Rightarrow> char" where
  "toLowerCase_char c = (let n = (of_char c :: nat) in
     if (65 \<le> n \<and> n \<le> 90) \<or> (192 \<le> n \<and> n \<le> 222 \<and> n \<noteq> 215)
     then char_of (n + 32) else c)"

definition toLowerCase :: "string \<Rightarrow> string" where
  "toLowerCase s = map toLowerCase_char s"

text \<open>\<^verbatim>\<open>String.prototype.trim\<close>: white space goes from both ends.\<close>

definition trim :: "string \<Rightarrow> string" where
  "trim s = rev (dropWhile isWhiteSpace (rev (dropWhile isWhiteSpace s)))"

text \<open>\<^verbatim>\<open>str.replace(/[...]/g, "")\<close> for a one-character class: every code unit of the
  class is deleted.\<close>

definition replace_class_empty :: "(char \<Rightarrow> bool) \<Rightarrow> string \<Rightarrow> string" where
  "replace_class_empty cls s = filter (\<lambda>c. \<not> cls c) s"

section \<open>FacetNormalizer: \<^verbatim>\<open>normalizeString\<close>\<close>

text \<open>
  \<^verbatim>\<open>
  const normalizeString = (str) => {
    if (!str) return "";
    return str.toLowerCase().replace(/[^\w\s&]/g, "").trim();
  };
  \<close>
  The argument is a string or absent (\<open>None\<close> for \<^verbatim>\<open>undefined\<close>); both the absent
  and the empty string are falsy.
\<close>

text \<open>The negated class \<^verbatim>\<open>[^\w\s&]\<close>.\<close>

definition normalize_class :: "char \<Rightarrow> bool" where
  "normalize_class c = (\<not> (isWordChar c \<or> isWhiteSpace c \<or> c = CHR ''&''))"

definition normalizeString :: "string option \<Rightarrow> string" where
  "normalizeString str =
     (case str of
        None \<Rightarrow> []
      | Some s \<Rightarrow>
          if s = [] then []
          else trim (replace_class_empty normalize_class (toLowerCase s)))"

text \<open>The normalizer as the specification words it: what survives is a letter, a digit,
  white space or the ampersand.\<close>

definition isLetter :: "char \<Rightarrow> bool" where
  "isLetter c = (let n = (of_char c :: nat) in (65 \<le> n \<and> n \<le> 90) \<or> (97 \<le> n \<and> n \<le> 122))"

definition isDigit :: "char \<Rightarrow> bool" where
  "isDigit c = (let n = (of_char c :: nat) in 48 \<le> n \<and> n \<le> 57)"

definition normalize_spec :: "string option \<Rightarrow> string" where
  "normalize_spec str =
     (case str of
        None \<Rightarrow> []
      | Some s \<Rightarrow>
          trim (filter (\<lambda>c. isLetter c \<or> isDigit c \<or> isWhiteSpace c \<or> c = CHR ''&'')
                  (toLowerCase s)))"

section \<open>TextHighlighter: \<^verbatim>\<open>highlightText\<close>\<close>

text \<open>
  \<^verbatim>\<open>
  const highlightText = (text, searchTerm) => {
    if (!searchTerm.trim()) return text;
    const escaped = searchTerm.replace(/[.*+?^${}()|[\]\\]/g, "\\$&");
    const regex = new RegExp(`(${escaped})`, "gi");
    return text.replace(regex, "<mark>$1</mark>");
  };
  \<close>
  What the code can raise is a value of \<open>error\<close>: a method called on an absent
  value is a \<open>TypeError\<close>, a pattern the regular-expression constructor refuses is a
  \<open>SyntaxError\<close>, and a search request that does not come back with matches is a
  \<open>FetchError\<close>.
\<close>

datatype error = TypeError | SyntaxError | FetchError

text \<open>The class \<^verbatim>\<open>[.*+?^${}()|[\]\\]\<close> of the source, in the order it is written.\<close>

definition escape_class :: "char \<Rightarrow> bool" where
  "escape_class c = (c \<in> set [CHR ''.'', CHR ''*'', CHR ''+'', CHR ''?'', CHR ''^'', CHR ''$'',
     CHR ''{'', CHR ''}'', CHR ''('', CHR '')'', CHR ''|'', CHR ''['', CHR '']'', CHR 0x5C])"

text \<open>\<^verbatim>\<open>s.replace(/[...]/g, "\\$&")\<close>: every code unit of the class gets a backslash
  in front (\<^verbatim>\<open>$&\<close> is the matched text).\<close>

definition replace_class_escape :: "(char \<Rightarrow> bool) \<Rightarrow> string \<Rightarrow> string" where
  "replace_class_escape cls s = concat (map (\<lambda>c. if cls c then [CHR 0x5C, c] else [c]) s)"

text \<open>
  The regular-expression constructor, for the patterns this component builds.
  \<open>SyntaxCharacter\<close> of the ECMAScript pattern grammar is
  \<^verbatim>\<open>^ $ \ . * + ? ( ) [ ] { } |\<close>. A sequence of atoms, each a pattern character (any
  code unit that is no syntax character) or a backslash before a syntax character (an
  identity escape), matches the text it spells; \<open>parse_atoms\<close> returns that text.
  \<open>RegExp\<close> accepts one capturing group around such a sequence. Every other pattern is
  answered with \<open>SyntaxError\<close>: the engine accepts more patterns than these, so a result
  \<open>Inr\<close> here is a pattern the engine accepts, with this meaning.
\<close>

definition isSyntaxCharacter :: "char \<Rightarrow> bool" where
  "isSyntaxCharacter c = (c \<in> set [CHR ''^'', CHR ''$'', CHR 0x5C, CHR ''.'', CHR ''*'', CHR ''+'',
     CHR ''?'', CHR ''('', CHR '')'', CHR ''['', CHR '']'', CHR ''{'', CHR ''}'', CHR ''|''])"

fun parse_atoms :: "string \<Rightarrow> string option" where
  "parse_atoms [] = Some []"
| "parse_atoms [c] = (if isSyntaxCharacter c then None else Some [c])"
| "parse_atoms (c # d # cs) =
     (if c = CHR 0x5C then
        (if isSyntaxCharacter d then map_option (Cons d) (parse_atoms cs) else None)
      else if isSyntaxCharacter c then None
      else map_option (Cons c) (parse_atoms (d # cs)))"

datatype regex = Capture string

definition RegExp :: "string \<Rightarrow> error + regex" where
  "RegExp pattern =
     (case pattern of
        [] \<Rightarrow> Inl SyntaxError
      | c # rest \<Rightarrow>
          if c = CHR ''('' \<and> rest \<noteq> [] \<and> last rest = CHR '')'' then
            (case parse_atoms (butlast rest) of
               None \<Rightarrow> Inl SyntaxError
             | Some lit \<Rightarrow> Inr (Capture lit))
          else Inl SyntaxError)"

text \<open>
  Matching with the flag \<^verbatim>\<open>i\<close> compares canonical code units, which are the upper-case
  ones: \<open>a..z\<close> and the small letters \<open>0xE0..0xFE\<close> of Latin-1 (the division sign
  \<open>0xF7\<close> is no letter) move down by 32. The upper-case forms of \<open>0xB5\<close>, \<open>0xDF\<close>
  and \<open>0xFF\<close> are outside the range or longer than one code unit, so within the range
  each of them matches itself only.
\<close>

definition canonicalize :: "char \<Rightarrow> char" where
  "canonicalize c = (let n = (of_char c :: nat) in
     if (97 \<le> n \<and> n \<le> 122) \<or> (224 \<le> n \<and> n \<le> 254 \<and> n \<noteq> 247)
     then char_of (n - 32) else c)"

definition matchesAt :: "string \<Rightarrow> string \<Rightarrow> bool" where
  "matchesAt lit text =
     (length lit \<le> length text \<and>
      map canonicalize (take (length lit) text) = map canonicalize lit)"

text \<open>The replacement \<^verbatim>\<open>"<mark>$1</mark>"\<close>, with the text of the first group for
  \<^verbatim>\<open>$1\<close>.\<close>

definition mark :: "string \<Rightarrow> string" where
  "mark m = ''<mark>'' @ m @ ''</mark>''"

text \<open>
  \<^verbatim>\<open>text.replace(regex, ...)\<close> with the flag \<^verbatim>\<open>g\<close>: the matches are taken from left to
  right without overlap, and what lies between them is copied. The empty group matches
  before every code unit and at the end.
\<close>

fun replace_all :: "string \<Rightarrow> string \<Rightarrow> string" where
  "replace_all lit [] = (if lit = [] then mark [] else [])"
| "replace_all lit (c # cs) =
     (if lit = [] then mark [] @ c # replace_all lit cs
      else if matchesAt lit (c # cs) then
        mark (take (length lit) (c # cs)) @ replace_all lit (drop (length lit - 1) cs)
      else c # replace_all lit cs)"

definition highlightText :: "string option \<Rightarrow> string \<Rightarrow> error + string option" where
  "highlightText text searchTerm =
     (if trim searchTerm = [] then Inr text
      else
        let escaped = replace_class_escape escape_class searchTerm in
        (case RegExp (''('' @ escaped @ '')'') of
           Inl e \<Rightarrow> Inl e
         | Inr (Capture lit) \<Rightarrow>
             (case text of
                None \<Rightarrow> Inl TypeError
              | Some t \<Rightarrow> Inr (Some (replace_all lit t)))))"

section \<open>Numbers, \<^verbatim>\<open>parseInt\<close> and \<^verbatim>\<open>Array.prototype.sort\<close>\<close>

text \<open>
  A number is \<open>NaN\<close>, a finite value or one of the two infinities. The finite values
  are taken as reals. The component only subtracts two numbers and hands the difference
  to the sort, which reads its sign; the difference of two finite doubles has the sign of
  the exact difference, so the subtraction of finite values is the exact one.
\<close>

datatype number = NaN | Num real | Infinity | NegInfinity

fun minus_number :: "number \<Rightarrow> number \<Rightarrow> number" where
  "minus_number NaN _ = NaN"
| "minus_number _ NaN = NaN"
| "minus_number (Num x) (Num y) = Num (x - y)"
| "minus_number (Num x) Infinity = NegInfinity"
| "minus_number (Num x) NegInfinity = Infinity"
| "minus_number Infinity (Num y) = Infinity"
| "minus_number Infinity Infinity = NaN"
| "minus_number Infinity NegInfinity = Infinity"
| "minus_number NegInfinity (Num y) = NegInfinity"
| "minus_number NegInfinity Infinity = NegInfinity"
| "minus_number NegInfinity NegInfinity = NaN"

text \<open>The comparison \<^verbatim>\<open>a <= b\<close> of two numbers; it is false when either is \<open>NaN\<close>.\<close>

fun number_le :: "number \<Rightarrow> number \<Rightarrow> bool" where
  "number_le NaN _ = False"
| "number_le _ NaN = False"
| "number_le (Num x) (Num y) = (x \<le> y)"
| "number_le (Num x) Infinity = True"
| "number_le (Num x) NegInfinity = False"
| "number_le Infinity (Num y) = False"
| "number_le Infinity Infinity = True"
| "number_le Infinity NegInfinity = False"
| "number_le NegInfinity _ = True"

text \<open>A field read as a number: an absent field is \<^verbatim>\<open>undefined\<close>, which is \<open>NaN\<close> in a
  subtraction.\<close>

definition toNumber :: "real option \<Rightarrow> number" where
  "toNumber v = (case v of None \<Rightarrow> NaN | Some x \<Rightarrow> Num x)"

text \<open>
  The double of an integer: the nearest value with a significand of 53 bits, the even
  one of two that are equally near, and an infinity from \<open>2 ^ 1024\<close> on. \<open>bit_length\<close>
  is the number of binary digits. Below \<open>2 ^ 53\<close> nothing is cut off.
\<close>

function bit_length :: "int \<Rightarrow> nat" where
  "bit_length n = (if n \<le> 0 then 0 else Suc (bit_length (n div 2)))"
  by pat_completeness auto
termination
  by (relation "measure nat") auto

declare bit_length.simps [simp del]

definition toDouble :: "int \<Rightarrow> number" where
  "toDouble n =
     (let a = \<bar>n\<bar>;
          e = bit_length a - 53;
          q = a div 2 ^ e;
          r = a mod 2 ^ e;
          q' = (if 2 ^ e < 2 * r \<or> (2 * r = 2 ^ e \<and> odd q) then q + 1 else q);
          m = q' * 2 ^ e
      in if 2 ^ 1024 \<le> m then (if n < 0 then NegInfinity else Infinity)
         else Num (of_int (if n < 0 then - m else m)))"

text \<open>
  \<^verbatim>\<open>parseInt(v, 10)\<close>: the argument is turned into a string (\<^verbatim>\<open>"undefined"\<close> for an
  absent one), leading white space is skipped, a sign is read, and the longest run of
  decimal digits that follows is the value, as a double; with no digit there the result
  is \<open>NaN\<close>. (Past 20 significant digits ECMAScript lets an engine read the further
  digits as zeros; the model takes the double of the whole run.)
\<close>

definition digit_value :: "char \<Rightarrow> int" where
  "digit_value c = int (of_char c) - 48"

definition parseInt :: "string option \<Rightarrow> number" where
  "parseInt v =
     (let s = dropWhile isWhiteSpace (case v of None \<Rightarrow> ''undefined'' | Some str \<Rightarrow> str);
          sign = (case s of [] \<Rightarrow> 1 | c # _ \<Rightarrow> if c = CHR ''-'' then - 1 else (1 :: int));
          body = (case s of [] \<Rightarrow> [] | c # cs \<Rightarrow> if c = CHR ''-'' \<or> c = CHR ''+'' then cs else s);
          digits = takeWhile isDigit body
      in if digits = [] then NaN
         else toDouble (sign * foldl (\<lambda>acc d. acc * 10 + digit_value d) 0 digits))"

text \<open>
  \<^verbatim>\<open>Array.prototype.sort(comparefn)\<close>. ECMAScript asks for a stable sort, reads a
  comparison result \<open>NaN\<close> as \<open>0\<close>, and fixes the result whenever the comparison is
  consistent on the elements; for an inconsistent one the order is left to the engine.
  The model is the stable insertion sort: an element moves behind exactly the elements it
  compares greater than, that is those for which the comparison is positive.
\<close>

definition sortCompare :: "('a \<Rightarrow> 'a \<Rightarrow> number) \<Rightarrow> 'a \<Rightarrow> 'a \<Rightarrow> number" where
  "sortCompare comparefn a b = (case comparefn a b of NaN \<Rightarrow> Num 0 | v \<Rightarrow> v)"

fun isPositive :: "number \<Rightarrow> bool" where
  "isPositive (Num v) = (0 < v)"
| "isPositive Infinity = True"
| "isPositive _ = False"

fun sort_insert :: "('a \<Rightarrow> 'a \<Rightarrow> number) \<Rightarrow> 'a \<Rightarrow> 'a list \<Rightarrow> 'a list" where
  "sort_insert comparefn x [] = [x]"
| "sort_insert comparefn x (y # ys) =
     (if isPositive (sortCompare comparefn x y) then y # sort_insert comparefn x ys
      else x # y # ys)"

fun Array_sort :: "('a \<Rightarrow> 'a \<Rightarrow> number) \<Rightarrow> 'a list \<Rightarrow> 'a list" where
  "Array_sort comparefn [] = []"
| "Array_sort comparefn (x # xs) = sort_insert comparefn x (Array_sort comparefn xs)"

text \<open>\<^verbatim>\<open>Array.prototype.slice(start, end)\<close>: a negative index counts from the end, and
  both are clamped to the array.\<close>

definition Array_slice :: "'a list \<Rightarrow> int \<Rightarrow> int \<Rightarrow> 'a list" where
  "Array_slice xs start stop =
     (let len = int (length xs);
          k = (if start < 0 then max (len + start) 0 else min start len);
          final = (if stop < 0 then max (len + stop) 0 else min stop len)
      in take (nat (final - k)) (drop (nat k) xs))"

section \<open>Records and the state of the component\<close>

text \<open>
  A record of the catalogue, as the JSON gives it: every field may be absent. The search
  path adds \<open>score\<close>; the records of the baseline have none. The field \<^verbatim>\<open>text\<close>
  of the source is \<open>item_text\<close> here.
\<close>

record item =
  case_number :: "string option"
  year :: "string option"
  policy_area :: "string option"
  topic :: "string option"
  item_text :: "string option"
  link :: "string option"
  score :: "real option"

text \<open>A match of the search service: a score and the record under \<^verbatim>\<open>metadata\<close>.\<close>

record match =
  match_score :: "real option"
  metadata :: item

datatype sort_order = Newest | Oldest

text \<open>
  The state cells of \<^verbatim>\<open>SearchUI\<close> (\<^verbatim>\<open>useState\<close>), and what \<^verbatim>\<open>console.error\<close> has
  written. \<open>rawResults = None\<close> is the \<^verbatim>\<open>null\<close> of the baseline mode. The empty string in
  \<open>selectedYear\<close> and \<open>selectedPolicy\<close> is the absent filter.
\<close>

record state =
  rawData :: "item list"
  rawResults :: "item list option"
  isLoading :: bool
  inputTerm :: string
  searchTerm :: string
  selectedYear :: string
  selectedPolicy :: string
  sortOrder :: sort_order
  currentPage :: int
  console :: "error list"

definition ITEMS_PER_PAGE :: nat where
  "ITEMS_PER_PAGE = 20"

section \<open>ResultComposer: the effect that computes \<^verbatim>\<open>filteredData\<close>\<close>

text \<open>
  \<^verbatim>\<open>
  let list = rawResults !== null ? rawResults : rawData;
  list = list.filter((item) => {
    const okYear = !selectedYear || item.year === selectedYear;
    const okPolicy = !selectedPolicy ||
      normalizeString(item.policy_area) === normalizeString(selectedPolicy);
    return okYear && okPolicy;
  });
  if (rawResults !== null) {
    list.sort((a, b) => b.score - a.score);
  } else {
    list.sort((a, b) => {
      const yA = parseInt(a.year, 10), yB = parseInt(b.year, 10);
      return sortOrder === "newest" ? yB - yA : yA - yB;
    });
  }
  setFilteredData(list);
  \<close>
\<close>

definition okYear :: "string \<Rightarrow> item \<Rightarrow> bool" where
  "okYear selYear it = (selYear = [] \<or> year it = Some selYear)"

definition okPolicy :: "string \<Rightarrow> item \<Rightarrow> bool" where
  "okPolicy selPolicy it =
     (selPolicy = [] \<or> normalizeString (policy_area it) = normalizeString (Some selPolicy))"

definition keep_item :: "string \<Rightarrow> string \<Rightarrow> item \<Rightarrow> bool" where
  "keep_item selYear selPolicy it = (okYear selYear it \<and> okPolicy selPolicy it)"

definition by_score :: "item \<Rightarrow> item \<Rightarrow> number" where
  "by_score a b = minus_number (toNumber (score b)) (toNumber (score a))"

definition by_year :: "sort_order \<Rightarrow> item \<Rightarrow> item \<Rightarrow> number" where
  "by_year order a b =
     (let yA = parseInt (year a); yB = parseInt (year b)
      in if order = Newest then minus_number yB yA else minus_number yA yB)"

definition candidates :: "state \<Rightarrow> item list" where
  "candidates s = (case rawResults s of Some rs \<Rightarrow> rs | None \<Rightarrow> rawData s)"

definition filteredData :: "state \<Rightarrow> item list" where
  "filteredData s =
     (let list = filter (keep_item (selectedYear s) (selectedPolicy s)) (candidates s)
      in case rawResults s of
           Some _ \<Rightarrow> Array_sort by_score list
         | None \<Rightarrow> Array_sort (by_year (sortOrder s)) list)"

section \<open>Paginator\<close>

text \<open>
  \<^verbatim>\<open>
  const totalPages = Math.ceil(filteredData.length / ITEMS_PER_PAGE);
  const currentPageData = filteredData.slice(
    (currentPage - 1) * ITEMS_PER_PAGE,
    (currentPage - 1) * ITEMS_PER_PAGE + ITEMS_PER_PAGE);
  \<close>
  Both are written over the view and the page index, which the component reads from
  \<open>filteredData\<close> and \<open>currentPage\<close>.
\<close>

definition totalPages :: "'a list \<Rightarrow> int" where
  "totalPages view = \<lceil>real (length view) / real ITEMS_PER_PAGE\<rceil>"

definition currentPageData :: "'a list \<Rightarrow> int \<Rightarrow> 'a list" where
  "currentPageData view page =
     Array_slice view ((page - 1) * int ITEMS_PER_PAGE)
       ((page - 1) * int ITEMS_PER_PAGE + int ITEMS_PER_PAGE)"

section \<open>SearchSessionController: \<^verbatim>\<open>handleSubmit\<close> and \<^verbatim>\<open>handleShowAll\<close>\<close>

text \<open>
  \<^verbatim>\<open>
  const handleSubmit = async (e) => {
    e.preventDefault();
    const q = inputTerm.trim();
    setSearchTerm(q);
    if (!q) { setRawResults(null); return; }
    setIsLoading(true);
    try {
      const res = await fetch(`/api/search?q=${encodeURIComponent(q)}&limit=${ITEMS_PER_PAGE}`);
      const { matches } = await res.json();
      const enriched = matches.map((m) => ({ score: m.score, ...m.metadata }));
      setRawResults(enriched);
      setCurrentPage(1);
    } catch (err) { console.error(err); }
    finally { setIsLoading(false); }
  };
  \<close>
  The handler runs in two parts, with the search call between them. \<open>handleSubmit_begin\<close>
  is the part up to the call and returns the request it issues, if any.
  \<open>handleSubmit_settle\<close> is the part after it, run on the state of that moment with what
  the call gave: the matches, or the error thrown inside \<^verbatim>\<open>try\<close> (a rejected request, a
  body that does not parse, a body without matches).
\<close>

record request =
  query :: string
  limit :: nat

text \<open>\<^verbatim>\<open>{ score: m.score, ...m.metadata }\<close>: a \<open>score\<close> of the metadata, when there is
  one, is written over the one of the match.\<close>

definition enrich :: "match \<Rightarrow> item" where
  "enrich m =
     (metadata m)\<lparr>score := (case score (metadata m) of Some v \<Rightarrow> Some v | None \<Rightarrow> match_score m)\<rparr>"

definition handleSubmit_begin :: "state \<Rightarrow> state \<times> request option" where
  "handleSubmit_begin s =
     (let q = trim (inputTerm s);
          s1 = s\<lparr>searchTerm := q\<rparr>
      in if q = [] then (s1\<lparr>rawResults := None\<rparr>, None)
         else (s1\<lparr>isLoading := True\<rparr>, Some \<lparr>query = q, limit = ITEMS_PER_PAGE\<rparr>))"

definition handleSubmit_settle :: "state \<Rightarrow> error + match list \<Rightarrow> state" where
  "handleSubmit_settle s outcome =
     (case outcome of
        Inr matches \<Rightarrow>
          s\<lparr>rawResults := Some (map enrich matches), currentPage := 1, isLoading := False\<rparr>
      | Inl err \<Rightarrow> s\<lparr>console := console s @ [err], isLoading := False\<rparr>)"

text \<open>The whole handler, when nothing else happens during the call; \<open>search\<close> is the
  search service.\<close>

definition handleSubmit :: "(request \<Rightarrow> error + match list) \<Rightarrow> state \<Rightarrow> state" where
  "handleSubmit search s =
     (case handleSubmit_begin s of
        (s1, None) \<Rightarrow> s1
      | (s1, Some req) \<Rightarrow> handleSubmit_settle s1 (search req))"

definition handleShowAll :: "state \<Rightarrow> state" where
  "handleShowAll s =
     s\<lparr>rawResults := None, inputTerm := [], searchTerm := [], selectedYear := [],
       selectedPolicy := [], sortOrder := Newest, currentPage := 1\<rparr>"

section \<open>The order of years as the specification words it\<close>

text \<open>The specification has a year that is no number as the lowest possible value:
  \<open>year_le_lowest a b\<close> is \<open>a \<le> b\<close> in that order.\<close>

definition year_le_lowest :: "number \<Rightarrow> number \<Rightarrow> bool" where
  "year_le_lowest a b = (a = NaN \<or> number_le a b)"

section \<open>Sample records and states\<close>

text \<open>A record with a year, a policy area, a text and a score, and a state with a
  baseline, search results, filters, a sort order, an input term and a stored search
  term; everything else is empty.\<close>

definition sample_item ::
  "string option \<Rightarrow> string option \<Rightarrow> string option \<Rightarrow> real option \<Rightarrow> item" where
  "sample_item y p t sc =
     \<lparr>case_number = None, year = y, policy_area = p, topic = None, item_text = t,
      link = None, score = sc\<rparr>"

definition sample_state ::
  "item list \<Rightarrow> item list option \<Rightarrow> string \<Rightarrow> string \<Rightarrow> sort_order \<Rightarrow> string \<Rightarrow> string \<Rightarrow> state" where
  "sample_state db rs y p order inp term =
     \<lparr>rawData = db, rawResults = rs, isLoading = False, inputTerm = inp, searchTerm = term,
      selectedYear = y, selectedPolicy = p, sortOrder = order, currentPage = 1, console = []\<rparr>"

section \<open>Properties of the normalizer\<close>

lemma toLowerCase_char_idem: "toLowerCase_char (toLowerCase_char c) = toLowerCase_char c"
  by (simp add: toLowerCase_char_def Let_def)

lemma toLowerCase_idem: "toLowerCase (toLowerCase s) = toLowerCase s"
  by (simp add: toLowerCase_def toLowerCase_char_idem)

lemma dropWhile_rev_keeps_head:
  assumes "\<not> P y"
  shows "\<exists>zs. rev (dropWhile P (rev (y # ys))) = y # zs"
proof -
  have "rev (dropWhile P (rev (y # ys))) =
        y # (if \<forall>x\<in>set ys. P x then [] else rev (dropWhile P (rev ys)))"
    using assms by (simp add: dropWhile_append)
  then show ?thesis by (rule exI)
qed

lemma dropWhile_rev_dropWhile:
  "dropWhile P (rev (dropWhile P (rev (dropWhile P s)))) = rev (dropWhile P (rev (dropWhile P s)))"
proof (cases "dropWhile P s")
  case Nil
  show ?thesis unfolding Nil by simp
next
  case (Cons y ys)
  then have ny: "\<not> P y"
    by (metis hd_dropWhile list.distinct(1) list.sel(1))
  from dropWhile_rev_keeps_head [of P y ys, OF ny]
  obtain zs where t: "rev (dropWhile P (rev (y # ys))) = y # zs" ..
  show ?thesis unfolding Cons t using ny by simp
qed

lemma trim_idem: "trim (trim s) = trim s"
proof -
  let ?a = "dropWhile isWhiteSpace s"
  let ?b = "dropWhile isWhiteSpace (rev ?a)"
  have 1: "dropWhile isWhiteSpace (rev ?b) = rev ?b"
    by (rule dropWhile_rev_dropWhile)
  have 2: "dropWhile isWhiteSpace ?b = ?b"
    by simp
  show ?thesis
    by (simp add: trim_def 1 2)
qed

lemma set_trim: "set (trim s) \<subseteq> set s"
proof -
  have "set (dropWhile isWhiteSpace (rev (dropWhile isWhiteSpace s)))
          \<subseteq> set (rev (dropWhile isWhiteSpace s))"
    by (rule set_dropWhileD [THEN subsetI])
  also have "\<dots> \<subseteq> set s"
    using set_dropWhileD by fastforce
  finally show ?thesis by (simp add: trim_def)
qed

lemma trim_Nil: "trim [] = []"
  by (simp add: trim_def)

text \<open>What is left by the normalizer takes no further change from any of its steps.\<close>

lemma normalize_body_fixed:
  fixes s :: string
  defines "r \<equiv> trim (replace_class_empty normalize_class (toLowerCase s))"
  shows "trim (replace_class_empty normalize_class (toLowerCase r)) = r"
proof -
  have sub: "set r \<subseteq> set (replace_class_empty normalize_class (toLowerCase s))"
    unfolding r_def by (rule set_trim)
  have low: "toLowerCase r = r"
  proof -
    have "\<forall>c \<in> set r. toLowerCase_char c = c"
    proof
      fix c assume "c \<in> set r"
      then have "c \<in> set (toLowerCase s)"
        using sub by (auto simp: replace_class_empty_def)
      then obtain d where "c = toLowerCase_char d"
        by (auto simp: toLowerCase_def)
      then show "toLowerCase_char c = c"
        by (simp add: toLowerCase_char_idem)
    qed
    then show ?thesis
      by (simp add: toLowerCase_def map_idI)
  qed
  have keep: "replace_class_empty normalize_class r = r"
  proof -
    have "\<forall>c \<in> set r. \<not> normalize_class c"
      using sub by (auto simp: replace_class_empty_def)
    then show ?thesis
      by (simp add: replace_class_empty_def)
  qed
  have "trim r = r"
    unfolding r_def by (rule trim_idem)
  with low keep show ?thesis by simp
qed

text \<open>
  Claim C10. The normalizer is idempotent: normalizing a normalized label changes
  nothing, so a comparison of two normalized labels does not depend on whether a side
  had been normalized before.
\<close>

theorem normalizeString_idempotent:
  "normalizeString (Some (normalizeString str)) = normalizeString str"
proof (cases str)
  case None
  then show ?thesis by (simp add: normalizeString_def)
next
  case (Some s)
  show ?thesis
  proof (cases "s = []")
    case True
    with Some show ?thesis by (simp add: normalizeString_def)
  next
    case False
    let ?r = "trim (replace_class_empty normalize_class (toLowerCase s))"
    have r: "normalizeString str = ?r"
      using Some False by (simp add: normalizeString_def)
    have "normalizeString (Some ?r) = ?r"
    proof (cases "?r = []")
      case True
      then show ?thesis by (simp add: normalizeString_def)
    next
      case False
      then show ?thesis
        using normalize_body_fixed [of s] by (simp add: normalizeString_def)
    qed
    with r show ?thesis by simp
  qed
qed

lemma underscore_code: "(of_char c = (95::nat)) = (c = CHR ''_'')"
proof
  assume "of_char c = (95::nat)"
  then have "char_of (of_char c :: nat) = (char_of (95::nat) :: char)" by simp
  then have "c = char_of (95::nat)" by (simp only: char_of_char)
  also have "(char_of (95::nat) :: char) = CHR ''_''" by code_simp
  finally show "c = CHR ''_''" .
next
  assume "c = CHR ''_''"
  then show "of_char c = (95::nat)" by simp
qed

lemma isWordChar_iff: "isWordChar c = (isLetter c \<or> isDigit c \<or> c = CHR ''_'')"
  unfolding isWordChar_def isLetter_def isDigit_def Let_def underscore_code [symmetric]
  by auto

text \<open>
  Claim C6, as the code has it. The normalizer lower-cases the label, deletes every
  character that is not a letter \<open>a..z\<close>, a digit, the underscore, white space or the
  ampersand, and trims the white space at both ends; for an absent or empty label it
  returns the empty string. The underscore belongs to the class \<^verbatim>\<open>\w\<close> and stays.
\<close>

theorem normalizeString_keeps_word_characters:
  "normalizeString None = [] \<and> normalizeString (Some []) = [] \<and>
   normalizeString (Some s) =
     trim (filter (\<lambda>c. isLetter c \<or> isDigit c \<or> c = CHR ''_'' \<or> isWhiteSpace c \<or> c = CHR ''&'')
             (toLowerCase s))"
proof -
  have cls: "(\<lambda>c. \<not> normalize_class c) =
        (\<lambda>c. isLetter c \<or> isDigit c \<or> c = CHR ''_'' \<or> isWhiteSpace c \<or> c = CHR ''&'')"
    by (auto simp: normalize_class_def isWordChar_iff)
  have "normalizeString (Some s) = trim (filter (\<lambda>c. \<not> normalize_class c) (toLowerCase s))"
    by (cases "s = []")
       (simp_all add: normalizeString_def replace_class_empty_def toLowerCase_def trim_Nil)
  then show ?thesis
    by (simp add: cls normalizeString_def)
qed

text \<open>
  Claim C6, as it is worded, fails on the label \<^verbatim>\<open>a_b\<close>: the underscore is no letter,
  digit, white space or ampersand, and the normalizer keeps it.
\<close>

theorem normalizeString_underscore_counterexample:
  "normalizeString (Some ''a_b'') = ''a_b'' \<and> normalize_spec (Some ''a_b'') = ''ab'' \<and>
   normalizeString (Some ''a_b'') \<noteq> normalize_spec (Some ''a_b'')"
  by code_simp

section \<open>Properties of the sort\<close>

lemma set_sort_insert: "set (sort_insert f x ys) = insert x (set ys)"
  by (induction ys) auto

lemma set_Array_sort: "set (Array_sort f xs) = set xs"
  by (induction xs) (auto simp: set_sort_insert)

lemma length_sort_insert: "length (sort_insert f x ys) = Suc (length ys)"
  by (induction ys) auto

lemma length_Array_sort: "length (Array_sort f xs) = length xs"
  by (induction xs) (auto simp: length_sort_insert)

text \<open>When the comparison is positive exactly where an order \<open>R\<close>, total and transitive
  on the elements at hand, does not hold, the result is ordered by \<open>R\<close>.\<close>

lemma sorted_sort_insert:
  assumes "\<forall>y \<in> set ys. isPositive (sortCompare f x y) = (\<not> R x y)"
    and "\<forall>y \<in> set ys. \<not> R x y \<longrightarrow> R y x"
    and "\<forall>y \<in> set ys. \<forall>z \<in> set ys. R x y \<longrightarrow> R y z \<longrightarrow> R x z"
    and "sorted_wrt R ys"
  shows "sorted_wrt R (sort_insert f x ys)"
  using assms
proof (induction ys)
  case Nil
  show ?case by simp
next
  case (Cons y ys)
  from Cons.prems(4) have tail: "sorted_wrt R ys" and head: "\<forall>z \<in> set ys. R y z"
    by simp_all
  show ?case
  proof (cases "isPositive (sortCompare f x y)")
    case True
    have y: "y \<in> set (y # ys)" by simp
    from True Cons.prems(1) y have "\<not> R x y" by blast
    with Cons.prems(2) y have yx: "R y x" by blast
    have "sorted_wrt R (sort_insert f x ys)"
    proof (rule Cons.IH)
      show "\<forall>z \<in> set ys. isPositive (sortCompare f x z) = (\<not> R x z)"
        using Cons.prems(1) by auto
      show "\<forall>z \<in> set ys. \<not> R x z \<longrightarrow> R z x"
        using Cons.prems(2) by auto
      show "\<forall>z \<in> set ys. \<forall>w \<in> set ys. R x z \<longrightarrow> R z w \<longrightarrow> R x w"
      proof (intro ballI impI)
        fix z w assume "z \<in> set ys" "w \<in> set ys" "R x z" "R z w"
        moreover from this have "z \<in> set (y # ys)" "w \<in> set (y # ys)" by simp_all
        ultimately show "R x w" using Cons.prems(3) by blast
      qed
      show "sorted_wrt R ys" by (rule tail)
    qed
    moreover have "\<forall>z \<in> set (sort_insert f x ys). R y z"
      using yx head by (simp add: set_sort_insert)
    ultimately have "sorted_wrt R (y # sort_insert f x ys)" by simp
    with True show ?thesis by simp
  next
    case False
    have y: "y \<in> set (y # ys)" by simp
    from False Cons.prems(1) y have xy: "R x y" by blast
    have "\<forall>z \<in> set ys. R x z"
    proof
      fix z assume z: "z \<in> set ys"
      with head have yz: "R y z" by blast
      have "y \<in> set (y # ys)" and "z \<in> set (y # ys)" using z by simp_all
      with Cons.prems(3) xy yz show "R x z" by blast
    qed
    with xy tail head have "sorted_wrt R (x # y # ys)" by simp
    with False show ?thesis by simp
  qed
qed

lemma sorted_Array_sort:
  assumes "\<forall>a \<in> set xs. \<forall>b \<in> set xs. isPositive (sortCompare f a b) = (\<not> R a b)"
    and "\<forall>a \<in> set xs. \<forall>b \<in> set xs. \<not> R a b \<longrightarrow> R b a"
    and "\<forall>a \<in> set xs. \<forall>b \<in> set xs. \<forall>c \<in> set xs. R a b \<longrightarrow> R b c \<longrightarrow> R a c"
  shows "sorted_wrt R (Array_sort f xs)"
  using assms
proof (induction xs)
  case Nil
  show ?case by simp
next
  case (Cons x xs)
  have sub: "set (Array_sort f xs) = set xs"
    by (rule set_Array_sort)
  have x: "x \<in> set (x # xs)" by simp
  have up: "\<And>a. a \<in> set xs \<Longrightarrow> a \<in> set (x # xs)" by simp
  have "sorted_wrt R (Array_sort f xs)"
  proof (rule Cons.IH)
    show "\<forall>a \<in> set xs. \<forall>b \<in> set xs. isPositive (sortCompare f a b) = (\<not> R a b)"
      using Cons.prems(1) up by blast
    show "\<forall>a \<in> set xs. \<forall>b \<in> set xs. \<not> R a b \<longrightarrow> R b a"
      using Cons.prems(2) up by blast
    show "\<forall>a \<in> set xs. \<forall>b \<in> set xs. \<forall>c \<in> set xs. R a b \<longrightarrow> R b c \<longrightarrow> R a c"
    proof (intro ballI impI)
      fix a b c assume "a \<in> set xs" "b \<in> set xs" "c \<in> set xs" and r: "R a b" "R b c"
      then have "a \<in> set (x # xs)" "b \<in> set (x # xs)" "c \<in> set (x # xs)" by simp_all
      with Cons.prems(3) r show "R a c" by blast
    qed
  qed
  then have "sorted_wrt R (sort_insert f x (Array_sort f xs))"
  proof (rule sorted_sort_insert [rotated 3])
    show "\<forall>y \<in> set (Array_sort f xs). isPositive (sortCompare f x y) = (\<not> R x y)"
      unfolding sub using Cons.prems(1) x up by blast
    show "\<forall>y \<in> set (Array_sort f xs). \<not> R x y \<longrightarrow> R y x"
      unfolding sub using Cons.prems(2) x up by blast
    show "\<forall>y \<in> set (Array_sort f xs). \<forall>z \<in> set (Array_sort f xs). R x y \<longrightarrow> R y z \<longrightarrow> R x z"
      unfolding sub
    proof (intro ballI impI)
      fix b c assume "b \<in> set xs" "c \<in> set xs" and r: "R x b" "R b c"
      then have "b \<in> set (x # xs)" "c \<in> set (x # xs)" by simp_all
      with Cons.prems(3) x r show "R x c" by blast
    qed
  qed
  then show ?case by simp
qed

text \<open>Stability: elements that are never told apart by the comparison keep their
  order.\<close>

lemma filter_sort_insert:
  assumes "\<forall>y \<in> set ys. isPositive (sortCompare f x y) \<longrightarrow> \<not> P y \<or> \<not> P x"
  shows "filter P (sort_insert f x ys) = filter P (x # ys)"
  using assms by (induction ys) auto

lemma filter_Array_sort:
  assumes "\<forall>a \<in> set xs. \<forall>b \<in> set xs. isPositive (sortCompare f a b) \<longrightarrow> \<not> P b \<or> \<not> P a"
  shows "filter P (Array_sort f xs) = filter P xs"
  using assms
proof (induction xs)
  case Nil
  then show ?case by simp
next
  case (Cons x xs)
  have "filter P (sort_insert f x (Array_sort f xs)) = filter P (x # Array_sort f xs)"
    using Cons.prems by (intro filter_sort_insert) (simp add: set_Array_sort)
  then show ?case using Cons by simp
qed

lemma set_filteredData:
  "set (filteredData s) =
     {it \<in> set (candidates s). keep_item (selectedYear s) (selectedPolicy s) it}"
  by (cases "rawResults s") (simp_all add: filteredData_def set_Array_sort)

text \<open>
  Claim C1. Whatever the candidate records, the filters and the source mode, a record is
  in the composed view exactly when it is a candidate, the year filter is absent or is
  the year of the record, and the policy-area filter is absent or normalizes to what the
  policy area of the record normalizes to. Setting either filter to absent gives a view
  that contains the records of the stricter one.
\<close>

theorem filteredData_filter_conjunction:
  "((it \<in> set (filteredData s)) =
     (it \<in> set (candidates s) \<and>
      (selectedYear s = [] \<or> year it = Some (selectedYear s)) \<and>
      (selectedPolicy s = [] \<or>
       normalizeString (policy_area it) = normalizeString (Some (selectedPolicy s))))) \<and>
   set (filteredData s) \<subseteq> set (filteredData (s\<lparr>selectedYear := []\<rparr>)) \<and>
   set (filteredData s) \<subseteq> set (filteredData (s\<lparr>selectedPolicy := []\<rparr>))"
proof (intro conjI)
  show "(it \<in> set (filteredData s)) =
     (it \<in> set (candidates s) \<and>
      (selectedYear s = [] \<or> year it = Some (selectedYear s)) \<and>
      (selectedPolicy s = [] \<or>
       normalizeString (policy_area it) = normalizeString (Some (selectedPolicy s))))"
    by (simp add: set_filteredData keep_item_def okYear_def okPolicy_def)
  have c1: "candidates (s\<lparr>selectedYear := []\<rparr>) = candidates s"
    by (simp add: candidates_def split: option.splits)
  have c2: "candidates (s\<lparr>selectedPolicy := []\<rparr>) = candidates s"
    by (simp add: candidates_def split: option.splits)
  show "set (filteredData s) \<subseteq> set (filteredData (s\<lparr>selectedYear := []\<rparr>))"
    by (auto simp: set_filteredData keep_item_def okYear_def c1)
  show "set (filteredData s) \<subseteq> set (filteredData (s\<lparr>selectedPolicy := []\<rparr>))"
    by (auto simp: set_filteredData keep_item_def okPolicy_def c2)
qed

lemma minus_number_NaN_right: "minus_number u NaN = NaN"
  by (cases u) simp_all

lemma sortCompare_by_score:
  assumes "score a = Some x" and "score b = Some y"
  shows "sortCompare by_score a b = Num (y - x)"
  using assms by (simp add: sortCompare_def by_score_def toNumber_def)

lemma sortCompare_by_score_pos:
  assumes "isPositive (sortCompare by_score a b)"
  shows "\<exists>x y. score a = Some x \<and> score b = Some y \<and> x < y"
proof (cases "score a")
  case None
  with assms show ?thesis
    by (simp add: sortCompare_def by_score_def toNumber_def minus_number_NaN_right)
next
  case a: (Some x)
  show ?thesis
  proof (cases "score b")
    case None
    with assms a show ?thesis
      by (simp add: sortCompare_def by_score_def toNumber_def)
  next
    case (Some y)
    with assms a show ?thesis
      by (simp add: sortCompare_by_score)
  qed
qed

text \<open>
  Claim C3. When search results are active and every one of them has a score, the
  composed view is in descending order of score, the records of one score stand in the
  order they had in the results, and the sort mode has no part in it.
\<close>

theorem search_view_sorted_by_score_stable:
  assumes "rawResults s = Some rs"
    and "\<forall>r \<in> set rs. score r \<noteq> None"
  shows "sorted_wrt (\<lambda>a b. \<exists>x y. score a = Some x \<and> score b = Some y \<and> y \<le> x)
           (filteredData s) \<and>
         (\<forall>v. filter (\<lambda>r. score r = v) (filteredData s) =
               filter (\<lambda>r. score r = v)
                 (filter (keep_item (selectedYear s) (selectedPolicy s)) rs)) \<and>
         (\<forall>order. filteredData (s\<lparr>sortOrder := order\<rparr>) = filteredData s)"
proof (intro conjI allI)
  let ?L = "filter (keep_item (selectedYear s) (selectedPolicy s)) rs"
  let ?R = "\<lambda>a b. \<exists>x y. score a = Some x \<and> score b = Some y \<and> y \<le> x"
  have fd: "filteredData s = Array_sort by_score ?L"
    using assms(1) by (simp add: filteredData_def candidates_def)
  have some: "\<forall>r \<in> set ?L. \<exists>x. score r = Some x"
    using assms(2) by auto
  have key: "\<forall>a \<in> set ?L. \<forall>b \<in> set ?L. isPositive (sortCompare by_score a b) = (\<not> ?R a b)"
  proof (intro ballI)
    fix a b assume "a \<in> set ?L" and "b \<in> set ?L"
    with some obtain x y where "score a = Some x" and "score b = Some y"
      by blast
    then show "isPositive (sortCompare by_score a b) = (\<not> ?R a b)"
      by (auto simp: sortCompare_by_score)
  qed
  have total: "\<forall>a \<in> set ?L. \<forall>b \<in> set ?L. \<not> ?R a b \<longrightarrow> ?R b a"
  proof (intro ballI impI)
    fix a b assume "a \<in> set ?L" and "b \<in> set ?L" and n: "\<not> ?R a b"
    with some obtain x y where "score a = Some x" and "score b = Some y"
      by blast
    with n show "?R b a" by auto
  qed
  have trans: "\<forall>a \<in> set ?L. \<forall>b \<in> set ?L. \<forall>c \<in> set ?L. ?R a b \<longrightarrow> ?R b c \<longrightarrow> ?R a c"
    by auto
  show "sorted_wrt ?R (filteredData s)"
    unfolding fd using key total trans by (rule sorted_Array_sort)
next
  fix v
  let ?L = "filter (keep_item (selectedYear s) (selectedPolicy s)) rs"
  have fd: "filteredData s = Array_sort by_score ?L"
    using assms(1) by (simp add: filteredData_def candidates_def)
  have "\<forall>a \<in> set ?L. \<forall>b \<in> set ?L.
          isPositive (sortCompare by_score a b) \<longrightarrow> \<not> score b = v \<or> \<not> score a = v"
    using sortCompare_by_score_pos by fastforce
  then show "filter (\<lambda>r. score r = v) (filteredData s) = filter (\<lambda>r. score r = v) ?L"
    unfolding fd by (rule filter_Array_sort)
next
  fix order
  show "filteredData (s\<lparr>sortOrder := order\<rparr>) = filteredData s"
    using assms(1) by (simp add: filteredData_def candidates_def)
qed

theorem search_view_sorted_by_score_stable_witness:
  "filteredData
     (sample_state [] (Some [sample_item (Some ''2019'') None None (Some 0.77),
                             sample_item (Some ''2020'') None None (Some 0.91),
                             sample_item (Some ''2021'') None None (Some 0.77)])
        [] [] Oldest [] [])
   = [sample_item (Some ''2020'') None None (Some 0.91),
      sample_item (Some ''2019'') None None (Some 0.77),
      sample_item (Some ''2021'') None None (Some 0.77)] \<and>
   sorted_wrt (\<lambda>a b. \<exists>x y. score a = Some x \<and> score b = Some y \<and> y \<le> x)
     (filteredData
        (sample_state [] (Some [sample_item (Some ''2019'') None None (Some 0.77),
                                sample_item (Some ''2020'') None None (Some 0.91),
                                sample_item (Some ''2021'') None None (Some 0.77)])
           [] [] Oldest [] []))"
proof -
  let ?rs = "[sample_item (Some ''2019'') None None (Some 0.77),
              sample_item (Some ''2020'') None None (Some 0.91),
              sample_item (Some ''2021'') None None (Some 0.77)]"
  let ?s = "sample_state [] (Some ?rs) [] [] Oldest [] []"
  have 1: "rawResults ?s = Some ?rs"
    by (simp add: sample_state_def)
  have 2: "\<forall>r \<in> set ?rs. score r \<noteq> None"
    by (simp add: sample_item_def del: not_None_eq)
  have 3: "filteredData ?s = [sample_item (Some ''2020'') None None (Some 0.91),
      sample_item (Some ''2019'') None None (Some 0.77),
      sample_item (Some ''2021'') None None (Some 0.77)]"
    by (simp add: filteredData_def candidates_def sample_state_def sample_item_def
        keep_item_def okYear_def okPolicy_def sortCompare_def by_score_def toNumber_def)
  from search_view_sorted_by_score_stable [OF 1 2]
  have 4: "sorted_wrt (\<lambda>a b. \<exists>x y. score a = Some x \<and> score b = Some y \<and> y \<le> x)
      (filteredData ?s)"
    by (rule conjunct1)
  from 3 4 show ?thesis by (rule conjI)
qed

lemma bit_length_le:
  assumes "n < 2 ^ k"
  shows "bit_length n \<le> k"
  using assms
proof (induction k arbitrary: n)
  case 0
  then show ?case by (subst bit_length.simps) simp
next
  case (Suc k)
  show ?case
  proof (cases "n \<le> 0")
    case True
    then show ?thesis by (subst bit_length.simps) simp
  next
    case False
    from Suc.prems have "n div 2 < 2 ^ k" by simp
    then have "bit_length (n div 2) \<le> k" by (rule Suc.IH)
    with False show ?thesis by (subst bit_length.simps) simp
  qed
qed

text \<open>An integer below \<open>2 ^ 53\<close> in magnitude is its own double.\<close>

lemma toDouble_small:
  assumes "\<bar>n\<bar> < 2 ^ 53"
  shows "toDouble n = Num (of_int n)"
proof -
  define a where "a = \<bar>n\<bar>"
  have "bit_length a \<le> 53"
    using assms unfolding a_def by (rule bit_length_le)
  then have e: "bit_length a - 53 = 0" by simp
  have "a < 2 ^ 53" using assms by (simp add: a_def)
  then have m: "\<not> 2 ^ 1024 \<le> a" by simp
  have "toDouble n = Num (of_int (if n < 0 then - a else a))"
    unfolding toDouble_def Let_def a_def [symmetric] e using m by simp
  also have "(if n < 0 then - a else a) = n"
    by (simp add: a_def)
  finally show ?thesis .
qed

lemma toDouble_integer:
  assumes "toDouble n = Num x"
  shows "x \<in> \<int>"
proof -
  obtain m :: int where
    "toDouble n = (if 2 ^ 1024 \<le> m then (if n < 0 then NegInfinity else Infinity)
                   else Num (of_int (if n < 0 then - m else m)))"
    unfolding toDouble_def Let_def by blast
  with assms have "x = of_int (if n < 0 then - m else m)"
    by (cases "(2 :: int) ^ 1024 \<le> m"; cases "n < 0") simp_all
  then show ?thesis by simp
qed

lemma parseInt_integer:
  assumes "parseInt v = Num x"
  shows "x \<in> \<int>"
proof -
  obtain ds :: string and n :: int where
    "parseInt v = (if ds = [] then NaN else toDouble n)"
    unfolding parseInt_def Let_def by blast
  with assms have "toDouble n = Num x"
    by (cases "ds = []") simp_all
  then show ?thesis by (rule toDouble_integer)
qed

text \<open>The order of numbers is total and transitive where no \<open>NaN\<close> is involved, and a
  difference is positive exactly where it does not hold.\<close>

lemma number_le_total:
  assumes "u \<noteq> NaN" and "v \<noteq> NaN" and "\<not> number_le u v"
  shows "number_le v u"
  using assms by (cases u; cases v) simp_all

lemma number_le_trans:
  assumes "number_le u v" and "number_le v w"
  shows "number_le u w"
  using assms by (cases u; cases v; cases w) simp_all

lemma isPositive_minus_number:
  assumes "u \<noteq> NaN" and "v \<noteq> NaN"
  shows "isPositive (case minus_number u v of NaN \<Rightarrow> Num 0 | w \<Rightarrow> w) = (\<not> number_le u v)"
  using assms by (cases u; cases v) auto

lemma sortCompare_by_year:
  "sortCompare (by_year order) a b =
     (case (if order = Newest then minus_number (parseInt (year b)) (parseInt (year a))
            else minus_number (parseInt (year a)) (parseInt (year b))) of
        NaN \<Rightarrow> Num 0 | w \<Rightarrow> w)"
  by (simp add: sortCompare_def by_year_def Let_def)

lemma sortCompare_by_year_NaN:
  assumes "parseInt (year a) = NaN \<or> parseInt (year b) = NaN"
  shows "sortCompare (by_year order) a b = Num 0"
proof -
  have "minus_number (parseInt (year a)) (parseInt (year b)) = NaN"
    and "minus_number (parseInt (year b)) (parseInt (year a)) = NaN"
    using assms by (cases "parseInt (year a)"; cases "parseInt (year b)"; simp)+
  then show ?thesis
    by (simp add: sortCompare_by_year)
qed

lemma baseline_adjacent_years:
  assumes "rawResults s = None"
    and "\<forall>r \<in> set (filteredData s). parseInt (year r) \<noteq> NaN"
  shows "\<forall>i. Suc i < length (filteredData s) \<longrightarrow>
           (if sortOrder s = Newest
            then number_le (parseInt (year (filteredData s ! Suc i)))
                   (parseInt (year (filteredData s ! i)))
            else number_le (parseInt (year (filteredData s ! i)))
                   (parseInt (year (filteredData s ! Suc i))))"
proof (intro allI impI)
  fix i assume i: "Suc i < length (filteredData s)"
  let ?L = "filter (keep_item (selectedYear s) (selectedPolicy s)) (rawData s)"
  let ?f = "by_year (sortOrder s)"
  let ?yr = "\<lambda>r. parseInt (year r)"
  let ?R = "\<lambda>a b. if sortOrder s = Newest then number_le (?yr b) (?yr a)
                   else number_le (?yr a) (?yr b)"
  have fd: "filteredData s = Array_sort ?f ?L"
    using assms(1) by (simp add: filteredData_def candidates_def)
  have num: "\<forall>r \<in> set ?L. ?yr r \<noteq> NaN"
    using assms(2) by (simp only: fd set_Array_sort)
  have key: "\<forall>a \<in> set ?L. \<forall>b \<in> set ?L. isPositive (sortCompare ?f a b) = (\<not> ?R a b)"
  proof (intro ballI)
    fix a b assume "a \<in> set ?L" and "b \<in> set ?L"
    with num have "?yr a \<noteq> NaN" and "?yr b \<noteq> NaN" by blast+
    then show "isPositive (sortCompare ?f a b) = (\<not> ?R a b)"
      by (simp add: sortCompare_by_year isPositive_minus_number)
  qed
  have total: "\<forall>a \<in> set ?L. \<forall>b \<in> set ?L. \<not> ?R a b \<longrightarrow> ?R b a"
  proof (intro ballI impI)
    fix a b assume "a \<in> set ?L" and "b \<in> set ?L" and n: "\<not> ?R a b"
    with num have ab: "?yr a \<noteq> NaN" "?yr b \<noteq> NaN" by blast+
    show "?R b a"
    proof (cases "sortOrder s = Newest")
      case True
      with n have "\<not> number_le (?yr b) (?yr a)" by simp
      with ab have "number_le (?yr a) (?yr b)" by (intro number_le_total)
      with True show ?thesis by simp
    next
      case False
      with n have "\<not> number_le (?yr a) (?yr b)" by simp
      with ab have "number_le (?yr b) (?yr a)" by (intro number_le_total)
      with False show ?thesis by simp
    qed
  qed
  have trans: "\<forall>a \<in> set ?L. \<forall>b \<in> set ?L. \<forall>c \<in> set ?L. ?R a b \<longrightarrow> ?R b c \<longrightarrow> ?R a c"
  proof (intro ballI impI)
    fix a b c assume ab: "?R a b" and bc: "?R b c"
    show "?R a c"
    proof (cases "sortOrder s = Newest")
      case True
      with ab bc have "number_le (?yr c) (?yr b)" and "number_le (?yr b) (?yr a)" by simp_all
      then have "number_le (?yr c) (?yr a)" by (rule number_le_trans)
      with True show ?thesis by simp
    next
      case False
      with ab bc have "number_le (?yr a) (?yr b)" and "number_le (?yr b) (?yr c)" by simp_all
      then have "number_le (?yr a) (?yr c)" by (rule number_le_trans)
      with False show ?thesis by simp
    qed
  qed
  have "sorted_wrt ?R (filteredData s)"
    unfolding fd using key total trans by (rule sorted_Array_sort)
  then have "?R (filteredData s ! i) (filteredData s ! Suc i)"
    using i by (simp add: sorted_wrt_iff_nth_less)
  then show "if sortOrder s = Newest
      then number_le (?yr (filteredData s ! Suc i)) (?yr (filteredData s ! i))
      else number_le (?yr (filteredData s ! i)) (?yr (filteredData s ! Suc i))" .
qed

text \<open>
  Claim C2, as the code has it. In the baseline mode, when the year of every record of
  the view parses to a number, the view is ordered by the number \<^verbatim>\<open>parseInt\<close> gives,
  which is an integer when it is finite: every record is followed by one of a year that
  is not greater under \<open>Newest\<close>, and not smaller under \<open>Oldest\<close>. A missing year
  parses to \<open>NaN\<close>, and a comparison in which either year is \<open>NaN\<close> is read by the sort
  as equal, so such a record is not placed by its year.
\<close>

theorem baseline_view_sorted_by_year:
  assumes "rawResults s = None"
    and "\<forall>r \<in> set (filteredData s). parseInt (year r) \<noteq> NaN"
  shows "(\<forall>i. Suc i < length (filteredData s) \<longrightarrow>
           (if sortOrder s = Newest
            then number_le (parseInt (year (filteredData s ! Suc i)))
                   (parseInt (year (filteredData s ! i)))
            else number_le (parseInt (year (filteredData s ! i)))
                   (parseInt (year (filteredData s ! Suc i))))) \<and>
         (\<forall>v x. parseInt v = Num x \<longrightarrow> x \<in> \<int>) \<and>
         parseInt None = NaN \<and>
         (\<forall>a b order. parseInt (year a) = NaN \<or> parseInt (year b) = NaN \<longrightarrow>
            sortCompare (by_year order) a b = Num 0)"
proof (intro conjI)
  show "\<forall>i. Suc i < length (filteredData s) \<longrightarrow>
           (if sortOrder s = Newest
            then number_le (parseInt (year (filteredData s ! Suc i)))
                   (parseInt (year (filteredData s ! i)))
            else number_le (parseInt (year (filteredData s ! i)))
                   (parseInt (year (filteredData s ! Suc i))))"
    using assms by (rule baseline_adjacent_years)
  show "\<forall>v x. parseInt v = Num x \<longrightarrow> x \<in> \<int>"
    using parseInt_integer by blast
  show "parseInt None = NaN"
    by (simp add: parseInt_def isWhiteSpace_def isDigit_def)
  show "\<forall>a b order. parseInt (year a) = NaN \<or> parseInt (year b) = NaN \<longrightarrow>
      sortCompare (by_year order) a b = Num 0"
    using sortCompare_by_year_NaN by blast
qed

lemma parseInt_samples:
  "parseInt (Some ''2019'') = Num 2019"
  "parseInt (Some ''2020'') = Num 2020"
  "parseInt (Some ''2021'') = Num 2021"
  "parseInt (Some ''abc'') = NaN"
  "parseInt None = NaN"
  by (simp_all add: parseInt_def isWhiteSpace_def isDigit_def digit_value_def toDouble_small)

text \<open>Two digit runs past \<open>2 ^ 53\<close> that are one double: the odd one is rounded to the
  even one, the comparison of the two is \<open>0\<close>, and the sort leaves them as they are.\<close>

lemma bit_length_2_53: "bit_length 9007199254740993 = 54" "bit_length 9007199254740992 = 54"
  by (simp_all add: bit_length.simps)

lemma parseInt_rounds:
  "parseInt (Some ''9007199254740993'') = Num 9007199254740992"
  "parseInt (Some ''9007199254740992'') = Num 9007199254740992"
  by (simp_all add: parseInt_def isWhiteSpace_def isDigit_def digit_value_def toDouble_def
      bit_length_2_53)

lemma baseline_double_tie:
  "filteredData
     (sample_state [sample_item (Some ''9007199254740993'') None None None,
                    sample_item (Some ''9007199254740992'') None None None]
        None [] [] Oldest [] [])
   = [sample_item (Some ''9007199254740993'') None None None,
      sample_item (Some ''9007199254740992'') None None None]"
proof -
  have yrs: "year (sample_item (Some ''9007199254740993'') None None None) =
        Some ''9007199254740993''"
    "year (sample_item (Some ''9007199254740992'') None None None) = Some ''9007199254740992''"
    by (simp_all add: sample_item_def)
  show ?thesis
    by (simp add: filteredData_def candidates_def sample_state_def keep_item_def okYear_def
        okPolicy_def sortCompare_def by_year_def yrs parseInt_rounds)
qed

theorem baseline_view_sorted_by_year_witness:
  "filteredData
     (sample_state [sample_item (Some ''9007199254740993'') None None None,
                    sample_item (Some ''9007199254740992'') None None None,
                    sample_item (Some ''2021'') None None None] None [] [] Oldest [] [])
   = [sample_item (Some ''2021'') None None None,
      sample_item (Some ''9007199254740993'') None None None,
      sample_item (Some ''9007199254740992'') None None None] \<and>
   number_le
     (parseInt (year (filteredData
       (sample_state [sample_item (Some ''9007199254740993'') None None None,
                      sample_item (Some ''9007199254740992'') None None None,
                      sample_item (Some ''2021'') None None None] None [] [] Oldest [] [])
       ! Suc 0)))
     (parseInt (year (filteredData
       (sample_state [sample_item (Some ''9007199254740993'') None None None,
                      sample_item (Some ''9007199254740992'') None None None,
                      sample_item (Some ''2021'') None None None] None [] [] Oldest [] [])
       ! Suc (Suc 0))))"
proof -
  let ?s = "sample_state [sample_item (Some ''9007199254740993'') None None None,
                    sample_item (Some ''9007199254740992'') None None None,
                    sample_item (Some ''2021'') None None None] None [] [] Oldest [] []"
  have yrs: "year (sample_item (Some ''9007199254740993'') None None None) =
        Some ''9007199254740993''"
    "year (sample_item (Some ''9007199254740992'') None None None) = Some ''9007199254740992''"
    "year (sample_item (Some ''2021'') None None None) = Some ''2021''"
    by (simp_all add: sample_item_def)
  have 1: "rawResults ?s = None"
    by (simp add: sample_state_def)
  have 3: "filteredData ?s = [sample_item (Some ''2021'') None None None,
      sample_item (Some ''9007199254740993'') None None None,
      sample_item (Some ''9007199254740992'') None None None]"
    by (simp add: filteredData_def candidates_def sample_state_def keep_item_def okYear_def
        okPolicy_def sortCompare_def by_year_def yrs parseInt_samples parseInt_rounds)
  have 2: "\<forall>r \<in> set (filteredData ?s). parseInt (year r) \<noteq> NaN"
    by (simp add: 3 yrs parseInt_samples parseInt_rounds)
  have 4: "Suc (Suc 0) < length (filteredData ?s)"
    by (simp add: 3)
  have 5: "sortOrder ?s \<noteq> Newest"
    by (simp add: sample_state_def)
  from baseline_view_sorted_by_year [OF 1 2]
  have "\<forall>i. Suc i < length (filteredData ?s) \<longrightarrow>
           (if sortOrder ?s = Newest
            then number_le (parseInt (year (filteredData ?s ! Suc i)))
                   (parseInt (year (filteredData ?s ! i)))
            else number_le (parseInt (year (filteredData ?s ! i)))
                   (parseInt (year (filteredData ?s ! Suc i))))"
    by (rule conjunct1)
  with 4 have "if sortOrder ?s = Newest
      then number_le (parseInt (year (filteredData ?s ! Suc (Suc 0))))
             (parseInt (year (filteredData ?s ! Suc 0)))
      else number_le (parseInt (year (filteredData ?s ! Suc 0)))
             (parseInt (year (filteredData ?s ! Suc (Suc 0))))"
    by blast
  with 5 have "number_le (parseInt (year (filteredData ?s ! Suc 0)))
      (parseInt (year (filteredData ?s ! Suc (Suc 0))))"
    by (simp only: if_False)
  with 3 show ?thesis by (rule conjI)
qed

text \<open>
  Claim C2, as it is worded, fails on a baseline of two records, the first with the year
  \<^verbatim>\<open>abc\<close> and the second with the year \<^verbatim>\<open>2021\<close>. Every comparison among them is \<open>NaN\<close>,
  that is equal, so the stable sort leaves them as they are under both sort orders:
  under \<open>Newest\<close> the record without a number stands before the year 2021, and under
  \<open>Oldest\<close>, with the two records exchanged, it stands behind it. In neither view is it
  at the low end.
\<close>

theorem baseline_unparseable_year_counterexample:
  "filteredData
     (sample_state [sample_item (Some ''abc'') None None None,
                    sample_item (Some ''2021'') None None None] None [] [] Newest [] [])
   = [sample_item (Some ''abc'') None None None, sample_item (Some ''2021'') None None None] \<and>
   \<not> year_le_lowest (parseInt (Some ''2021'')) (parseInt (Some ''abc'')) \<and>
   filteredData
     (sample_state [sample_item (Some ''2021'') None None None,
                    sample_item (Some ''abc'') None None None] None [] [] Oldest [] [])
   = [sample_item (Some ''2021'') None None None, sample_item (Some ''abc'') None None None] \<and>
   sortCompare (by_year Newest) (sample_item (Some ''abc'') None None None)
     (sample_item (Some ''2021'') None None None) = Num 0 \<and>
   sortCompare (by_year Newest) (sample_item (Some ''2021'') None None None)
     (sample_item (Some ''abc'') None None None) = Num 0"
proof -
  have yrs: "year (sample_item (Some ''abc'') None None None) = Some ''abc''"
    "year (sample_item (Some ''2021'') None None None) = Some ''2021''"
    by (simp_all add: sample_item_def)
  show ?thesis
    by (simp add: filteredData_def candidates_def sample_state_def keep_item_def okYear_def
        okPolicy_def sortCompare_def by_year_def yrs parseInt_samples year_le_lowest_def)
qed

section \<open>Properties of the paginator\<close>

lemma ceil_div20: "- (- int n div 20) = (int n + 19) div 20"
  by linarith

lemma totalPages_div: "totalPages view = (int (length view) + 19) div 20"
proof -
  have "\<lceil>real (length view) / real ITEMS_PER_PAGE\<rceil> =
        \<lceil>real_of_int (int (length view)) / real_of_int 20\<rceil>"
    by (simp add: ITEMS_PER_PAGE_def)
  also have "\<dots> = - (- int (length view) div 20)"
    by (rule ceiling_divide_eq_div)
  finally show ?thesis by (simp add: totalPages_def ceil_div20)
qed

lemma totalPages_nat: "totalPages view = int ((length view + 19) div 20)"
  by (simp add: totalPages_div zdiv_int)

text \<open>A slice that starts at a position that is not negative.\<close>

lemma Array_slice_nonneg:
  assumes "0 \<le> start"
  shows "Array_slice xs start (start + int n) = take n (drop (nat start) xs)"
proof -
  define a where "a = nat start"
  have start: "start = int a" using assms by (simp add: a_def)
  have "Array_slice xs (int a) (int a + int n) =
        take (min (a + n) (length xs) - min a (length xs)) (drop (min a (length xs)) xs)"
    unfolding Array_slice_def Let_def
    by (simp add: min_def nat_diff_distrib' flip: of_nat_add)
  also have "\<dots> = take n (drop a xs)"
  proof (cases "a \<le> length xs")
    case False
    then show ?thesis by simp
  next
    case True
    then have "take (min (a + n) (length xs) - a) (drop a xs) = take n (drop a xs)"
      by (cases "a + n \<le> length xs") (simp_all add: min_def)
    with True show ?thesis by (simp add: min_def)
  qed
  finally show ?thesis by (simp add: start)
qed

lemma currentPageData_take_drop:
  assumes "1 \<le> p"
  shows "currentPageData view p = take 20 (drop (nat ((p - 1) * 20)) view)"
proof -
  have "0 \<le> (p - 1) * 20" using assms by simp
  from Array_slice_nonneg [OF this, of view 20] show ?thesis
    by (simp add: currentPageData_def ITEMS_PER_PAGE_def)
qed

lemma last_page_arith:
  fixes n :: nat
  assumes "0 < n"
  shows "min (n - ((n + 19) div 20 - 1) * 20) 20 = (if n mod 20 = 0 then 20 else n mod 20)"
proof -
  define q where "q = n div 20"
  define r where "r = n mod 20"
  have n: "n = 20 * q + r" and r: "r < 20"
    by (simp_all add: q_def r_def)
  show ?thesis
  proof (cases "r = 0")
    case True
    with n assms have q: "0 < q" by simp
    have "(n + 19) div 20 = q" using n True by simp
    moreover have "n - (q - 1) * 20 = 20" using n True q by (simp add: algebra_simps)
    ultimately show ?thesis using True r_def by simp
  next
    case False
    have "(n + 19) div 20 = q + 1" using n False r by simp
    moreover have "n - q * 20 = r" using n by simp
    ultimately show ?thesis using False r r_def by simp
  qed
qed

lemma length_last_page:
  "length (currentPageData view (totalPages view)) =
     (if 0 < length view \<and> length view mod 20 = 0 then 20 else length view mod 20)"
proof (cases "view = []")
  case True
  then show ?thesis
    by (simp add: totalPages_nat currentPageData_def Array_slice_def ITEMS_PER_PAGE_def)
next
  case False
  define n where "n = length view"
  define T where "T = (n + 19) div 20"
  have pos: "0 < n" using False by (simp add: n_def)
  then have T1: "1 \<le> T" unfolding T_def by simp
  have tp: "totalPages view = int T"
    by (simp add: totalPages_nat T_def n_def)
  have p: "1 \<le> int T" using T1 by simp
  have idx: "nat ((int T - 1) * 20) = (T - 1) * 20"
    using T1 by (simp add: nat_mult_distrib nat_diff_distrib')
  have "length (currentPageData view (int T)) = min (n - (T - 1) * 20) 20"
    by (simp add: currentPageData_take_drop [OF p] idx n_def)
  also have "\<dots> = (if n mod 20 = 0 then 20 else n mod 20)"
    unfolding T_def using pos by (rule last_page_arith)
  finally show ?thesis using pos by (simp add: tp n_def)
qed

text \<open>
  Claim C7. For a view of \<open>n\<close> records and pages of 20, the number of pages is the
  ceiling of \<open>n / 20\<close>, which is \<open>(n + 19) div 20\<close>, and is 0 for the empty view. The page
  of index \<open>p\<close>, counted from 1, is the range from \<open>(p - 1) * 20\<close> up to \<open>p * 20\<close> cut to
  the view. The last page, the one of index \<open>totalPages\<close>, has \<open>n mod 20\<close> records, or 20
  when \<open>n\<close> is a multiple of 20 other than 0.
\<close>

theorem pagination_bounds:
  fixes view :: "'a list"
  assumes "1 \<le> p"
  shows "totalPages view = \<lceil>real (length view) / 20\<rceil> \<and>
         totalPages view = (int (length view) + 19) div 20 \<and>
         totalPages ([] :: 'a list) = 0 \<and>
         currentPageData view p = take 20 (drop (nat ((p - 1) * 20)) view) \<and>
         length (currentPageData view (totalPages view)) =
           (if 0 < length view \<and> length view mod 20 = 0 then 20 else length view mod 20)"
proof (intro conjI)
  show "totalPages view = \<lceil>real (length view) / 20\<rceil>"
    by (simp add: totalPages_def ITEMS_PER_PAGE_def)
  show "totalPages view = (int (length view) + 19) div 20"
    by (rule totalPages_div)
  show "totalPages ([] :: 'a list) = 0"
    by (simp add: totalPages_def)
  show "currentPageData view p = take 20 (drop (nat ((p - 1) * 20)) view)"
    using assms by (rule currentPageData_take_drop)
  show "length (currentPageData view (totalPages view)) =
      (if 0 < length view \<and> length view mod 20 = 0 then 20 else length view mod 20)"
    by (rule length_last_page)
qed

theorem pagination_bounds_witness:
  "totalPages [0 ..< 25] = 2 \<and>
   currentPageData [0 ..< 25] 2 = [20, 21, 22, 23, 24] \<and>
   length (currentPageData [0 ..< 25] (totalPages [0 ..< 25])) = 5"
proof -
  have p: "(1::int) \<le> 2" by simp
  have u: "drop 20 [0 ..< 25] = [20, 21, 22, 23, 24]"
    by (simp add: upt_rec)
  note w = pagination_bounds [OF p, of "[0 ..< 25]"]
  have a: "totalPages [0 ..< 25] = 2"
    using w by simp
  have b: "currentPageData [0 ..< 25] 2 = [20, 21, 22, 23, 24]"
    using w u by simp
  have c: "length (currentPageData [0 ..< 25] (totalPages [0 ..< 25])) = 5"
    using w by simp
  from a b c show ?thesis by simp
qed

section \<open>Properties of the highlighter\<close>

text \<open>The class the source escapes is the class of syntax characters.\<close>

lemma escape_class_syntax: "escape_class c = isSyntaxCharacter c"
  by (auto simp: escape_class_def isSyntaxCharacter_def)

lemma backslash_syntax: "isSyntaxCharacter (CHR 0x5C)"
  by (simp add: isSyntaxCharacter_def)

lemma parse_atoms_plain:
  assumes "\<not> isSyntaxCharacter c"
  shows "parse_atoms (c # xs) = map_option (Cons c) (parse_atoms xs)"
proof (cases xs)
  case Nil
  with assms show ?thesis by simp
next
  case (Cons d ds)
  from assms backslash_syntax have "c \<noteq> CHR 0x5C" by auto
  with assms Cons show ?thesis by simp
qed

lemma parse_atoms_escaped:
  assumes "isSyntaxCharacter c"
  shows "parse_atoms (CHR 0x5C # c # xs) = map_option (Cons c) (parse_atoms xs)"
  using assms by simp

lemma parse_atoms_escape: "parse_atoms (replace_class_escape escape_class t) = Some t"
proof (induction t)
  case Nil
  show ?case by (simp add: replace_class_escape_def)
next
  case (Cons c cs)
  have step: "replace_class_escape escape_class (c # cs) =
      (if isSyntaxCharacter c then [CHR 0x5C, c] else [c]) @ replace_class_escape escape_class cs"
    by (simp add: replace_class_escape_def escape_class_syntax)
  show ?case
  proof (cases "isSyntaxCharacter c")
    case True
    then have "parse_atoms (replace_class_escape escape_class (c # cs)) =
        map_option (Cons c) (parse_atoms (replace_class_escape escape_class cs))"
      unfolding step by (simp add: parse_atoms_escaped)
    then show ?thesis using Cons.IH by simp
  next
    case False
    then have "parse_atoms (replace_class_escape escape_class (c # cs)) =
        map_option (Cons c) (parse_atoms (replace_class_escape escape_class cs))"
      unfolding step by (simp add: parse_atoms_plain)
    then show ?thesis using Cons.IH by simp
  qed
qed

lemma RegExp_escape:
  "RegExp (CHR ''('' # replace_class_escape escape_class t @ '')'') = Inr (Capture t)"
  by (simp add: RegExp_def parse_atoms_escape)

lemma highlightText_eq:
  "highlightText t term =
     (if trim term = [] then Inr t
      else case t of None \<Rightarrow> Inl TypeError | Some x \<Rightarrow> Inr (Some (replace_all term x)))"
  by (simp add: highlightText_def Let_def RegExp_escape)

text \<open>
  Claim C5. For a text and a term that are strings, \<open>highlightText\<close> returns a string
  and raises nothing. Every syntax character of the term is escaped, so the pattern is
  accepted by the constructor and stands for the term itself: the result is the text
  with the occurrences of the term, compared without regard to case, wrapped in
  \<^verbatim>\<open><mark>\<close>. When the term is empty or white space only, the text is returned as it
  is.
\<close>

theorem highlightText_total:
  "(\<exists>r. highlightText (Some txt) term = Inr (Some r)) \<and>
   (\<forall>c. escape_class c = isSyntaxCharacter c) \<and>
   RegExp (''('' @ replace_class_escape escape_class term @ '')'') = Inr (Capture term) \<and>
   highlightText (Some txt) term =
     Inr (Some (if trim term = [] then txt else replace_all term txt)) \<and>
   (trim term = [] \<longrightarrow> highlightText (Some txt) term = Inr (Some txt))"
  by (simp add: highlightText_eq escape_class_syntax RegExp_escape)

lemma trim_blank_sample: "trim [CHR '' '', CHR 0x09] = []"
  by (simp add: trim_def isWhiteSpace_def)

theorem highlightText_total_witness:
  "trim [CHR '' '', CHR 0x09] = [] \<and>
   highlightText (Some ''M&A (EU)'') [CHR '' '', CHR 0x09] = Inr (Some ''M&A (EU)'')"
  using highlightText_total [of "''M&A (EU)''" "[CHR '' '', CHR 0x09]"] trim_blank_sample
  by simp

text \<open>The term of the specification, with its parentheses, against a text in another
  case.\<close>

lemma highlightText_sample:
  "highlightText (Some ''Deal: m&a (eu) rules'') ''M&A (EU)'' =
     Inr (Some ''Deal: <mark>m&a (eu)</mark> rules'')"
  by code_simp

text \<open>
  Claim C8 asks that a record without a text is passed through and nothing is raised.
  The code guards the search term only: with a term that is not blank, the method
  \<^verbatim>\<open>replace\<close> is called on the absent text, which raises a \<open>TypeError\<close> while the
  record is rendered.
\<close>

theorem highlightText_absent_text_raises:
  "highlightText (item_text (sample_item (Some ''2021'') (Some ''Merger'') None None)) ''a'' =
     Inl TypeError"
  by (simp add: highlightText_eq sample_item_def trim_def isWhiteSpace_def)

section \<open>Properties of the search session\<close>

lemma handleSubmit_begin_nonempty:
  assumes "trim (inputTerm s) \<noteq> []"
  shows "handleSubmit_begin s =
     (s\<lparr>searchTerm := trim (inputTerm s), isLoading := True\<rparr>,
      Some \<lparr>query = trim (inputTerm s), limit = ITEMS_PER_PAGE\<rparr>)"
  using assms by (simp add: handleSubmit_begin_def Let_def)

lemma handleSubmit_failure:
  assumes "trim (inputTerm s) \<noteq> []"
    and "search \<lparr>query = trim (inputTerm s), limit = ITEMS_PER_PAGE\<rparr> = Inl err"
  shows "handleSubmit search s =
     s\<lparr>searchTerm := trim (inputTerm s), isLoading := False, console := console s @ [err]\<rparr>"
  using assms
  by (simp add: handleSubmit_def handleSubmit_begin_nonempty handleSubmit_settle_def)

lemma filteredData_cong:
  assumes "rawData t = rawData s" and "rawResults t = rawResults s"
    and "selectedYear t = selectedYear s" and "selectedPolicy t = selectedPolicy s"
    and "sortOrder t = sortOrder s"
  shows "filteredData t = filteredData s"
  unfolding filteredData_def candidates_def assms by (rule refl)

text \<open>
  Claim C4. When a query that is not blank is submitted and the search call fails, the
  error is written to the console, and the result source is as it was: the baseline,
  the search results (so the mode), the filters, the sort order, the page and the
  composed view are unchanged, and the loading flag is down. The state has no cell for
  an error. The same holds for the part of the handler that runs after the call,
  whatever the state is at that moment.
\<close>

theorem failed_search_keeps_result_source:
  assumes "trim (inputTerm s) \<noteq> []"
    and "search \<lparr>query = trim (inputTerm s), limit = ITEMS_PER_PAGE\<rparr> = Inl err"
  shows "console (handleSubmit search s) = console s @ [err] \<and>
         rawResults (handleSubmit search s) = rawResults s \<and>
         rawData (handleSubmit search s) = rawData s \<and>
         filteredData (handleSubmit search s) = filteredData s \<and>
         currentPage (handleSubmit search s) = currentPage s \<and>
         selectedYear (handleSubmit search s) = selectedYear s \<and>
         selectedPolicy (handleSubmit search s) = selectedPolicy s \<and>
         sortOrder (handleSubmit search s) = sortOrder s \<and>
         isLoading (handleSubmit search s) = False \<and>
         handleSubmit_settle t (Inl err) = t\<lparr>console := console t @ [err], isLoading := False\<rparr> \<and>
         rawResults (handleSubmit_settle t (Inl err)) = rawResults t \<and>
         filteredData (handleSubmit_settle t (Inl err)) = filteredData t"
proof -
  have h: "handleSubmit search s =
      s\<lparr>searchTerm := trim (inputTerm s), isLoading := False, console := console s @ [err]\<rparr>"
    using assms by (rule handleSubmit_failure)
  have f: "filteredData (handleSubmit search s) = filteredData s"
    unfolding h by (rule filteredData_cong) simp_all
  have t: "handleSubmit_settle t (Inl err) = t\<lparr>console := console t @ [err], isLoading := False\<rparr>"
    by (simp add: handleSubmit_settle_def)
  have ft: "filteredData (handleSubmit_settle t (Inl err)) = filteredData t"
    unfolding t by (rule filteredData_cong) simp_all
  show ?thesis
    using f ft by (simp add: h t)
qed

lemma trim_sample_new: "trim '' new '' = ''new''"
  by (simp add: trim_def isWhiteSpace_def)

theorem failed_search_keeps_result_source_witness:
  "handleSubmit (\<lambda>req. Inl FetchError)
     (sample_state [] (Some [sample_item (Some ''2020'') None None (Some 1)]) [] [] Newest
        '' new '' ''old'')
   = (sample_state [] (Some [sample_item (Some ''2020'') None None (Some 1)]) [] [] Newest
        '' new '' ''new'')\<lparr>console := [FetchError]\<rparr> \<and>
   rawResults (handleSubmit (\<lambda>req. Inl FetchError)
     (sample_state [] (Some [sample_item (Some ''2020'') None None (Some 1)]) [] [] Newest
        '' new '' ''old''))
   = Some [sample_item (Some ''2020'') None None (Some 1)]"
proof -
  let ?s = "sample_state [] (Some [sample_item (Some ''2020'') None None (Some 1)]) [] [] Newest
        '' new '' ''old''"
  have i: "inputTerm ?s = '' new ''"
    by (simp add: sample_state_def)
  have 1: "trim (inputTerm ?s) \<noteq> []"
    by (simp add: i trim_sample_new)
  have 2: "(\<lambda>req. Inl FetchError) \<lparr>query = trim (inputTerm ?s), limit = ITEMS_PER_PAGE\<rparr> =
      (Inl FetchError :: error + match list)"
    by simp
  have 3: "rawResults (handleSubmit (\<lambda>req. Inl FetchError) ?s) = rawResults ?s"
    using failed_search_keeps_result_source [OF 1 2] by blast
  have 4: "handleSubmit (\<lambda>req. Inl FetchError) ?s =
      (sample_state [] (Some [sample_item (Some ''2020'') None None (Some 1)]) [] [] Newest
        '' new '' ''new'')\<lparr>console := [FetchError]\<rparr>"
    by (simp add: handleSubmit_failure [OF 1 2] i trim_sample_new) (simp add: sample_state_def)
  from 3 4 show ?thesis
    by (simp add: sample_state_def)
qed

text \<open>
  Claim C9. With a query that is not blank, the part of the handler before the search
  call stores the trimmed query as the search term and issues the request with it. The
  part after a failed call leaves the search term alone. So after a failed search the
  search term is the new query, while the search results are the former ones.
\<close>

theorem searchTerm_set_before_search:
  assumes "trim (inputTerm s) \<noteq> []"
  shows "handleSubmit_begin s =
           (s\<lparr>searchTerm := trim (inputTerm s), isLoading := True\<rparr>,
            Some \<lparr>query = trim (inputTerm s), limit = ITEMS_PER_PAGE\<rparr>) \<and>
         searchTerm (fst (handleSubmit_begin s)) = trim (inputTerm s) \<and>
         searchTerm (handleSubmit_settle t (Inl err)) = searchTerm t \<and>
         searchTerm (handleSubmit (\<lambda>req. Inl err) s) = trim (inputTerm s) \<and>
         rawResults (handleSubmit (\<lambda>req. Inl err) s) = rawResults s"
proof -
  have b: "handleSubmit_begin s =
           (s\<lparr>searchTerm := trim (inputTerm s), isLoading := True\<rparr>,
            Some \<lparr>query = trim (inputTerm s), limit = ITEMS_PER_PAGE\<rparr>)"
    using assms by (rule handleSubmit_begin_nonempty)
  have h: "handleSubmit (\<lambda>req. Inl err) s =
      s\<lparr>searchTerm := trim (inputTerm s), isLoading := False, console := console s @ [err]\<rparr>"
    using assms by (simp add: handleSubmit_failure)
  show ?thesis
    by (simp add: b h handleSubmit_settle_def)
qed

theorem searchTerm_set_before_search_witness:
  "searchTerm (sample_state [] (Some []) [] [] Newest '' new '' ''old'') = ''old'' \<and>
   searchTerm (handleSubmit (\<lambda>req. Inl FetchError)
     (sample_state [] (Some []) [] [] Newest '' new '' ''old'')) = ''new'' \<and>
   rawResults (handleSubmit (\<lambda>req. Inl FetchError)
     (sample_state [] (Some []) [] [] Newest '' new '' ''old'')) = Some []"
proof -
  let ?s = "sample_state [] (Some []) [] [] Newest '' new '' ''old''"
  have i: "inputTerm ?s = '' new ''"
    by (simp add: sample_state_def)
  have 1: "trim (inputTerm ?s) \<noteq> []"
    by (simp add: i trim_sample_new)
  from searchTerm_set_before_search [OF 1, of _ FetchError]
  have "searchTerm (handleSubmit (\<lambda>req. Inl FetchError) ?s) = trim (inputTerm ?s)"
    and "rawResults (handleSubmit (\<lambda>req. Inl FetchError) ?s) = rawResults ?s"
    by blast+
  then show ?thesis
    by (simp add: i trim_sample_new) (simp add: sample_state_def)
qed

end
